theory Spec2Isabelle
  imports Main "HOL-Library.Sublist"
begin

section \<open>Python strings and slices\<close>

text \<open>
  A Python \<open>str\<close> is a sequence of Unicode code points; \<open>len\<close> counts code points.
  A code point is a natural number, a string a list of them.
\<close>

type_synonym codepoint = nat
type_synonym ustring = "codepoint list"

definition ascii :: "string \<Rightarrow> ustring" where
  "ascii s = map of_char s"

text \<open>
  \<open>xs[lo:hi]\<close>: a negative index counts from the end, and every index is then
  brought into \<open>0..len(xs)\<close>. Slicing never raises.
\<close>

definition slice_index :: "int \<Rightarrow> int \<Rightarrow> int" where
  "slice_index n i = (if i < 0 then max 0 (i + n) else min i n)"

definition py_slice :: "'a list \<Rightarrow> int \<Rightarrow> int \<Rightarrow> 'a list" where
  "py_slice xs lo hi =
     (let n = int (length xs); a = slice_index n lo; b = slice_index n hi
      in take (nat (b - a)) (drop (nat a) xs))"

text \<open>
  \<open>s.find(sub)\<close>: the lowest index at which \<open>sub\<close> starts in \<open>s\<close>, and \<open>-1\<close>
  when there is none. The counter is the index of the head of the remaining suffix.
\<close>

fun find_from :: "ustring \<Rightarrow> ustring \<Rightarrow> nat \<Rightarrow> int" where
  "find_from sub [] i = (if sub = [] then int i else - 1)"
| "find_from sub (x # xs) i =
     (if prefix sub (x # xs) then int i else find_from sub xs (Suc i))"

definition find_str :: "ustring \<Rightarrow> ustring \<Rightarrow> int" where
  "find_str s sub = find_from sub s 0"

text \<open>\<open>s.replace(old, new)\<close> for one-character \<open>old\<close> and \<open>new\<close>.\<close>

definition replace_char :: "codepoint \<Rightarrow> codepoint \<Rightarrow> ustring \<Rightarrow> ustring" where
  "replace_char old new s = map (\<lambda>c. if c = old then new else c) s"

section \<open>Unicode data used by \<open>remove_accents\<close>\<close>

text \<open>
  \<open>unicodedata\<close> is the standard library's view of the Unicode Character Database.
  The functions take the two properties they read as a parameter: the full
  compatibility decomposition of a code point (the code point itself when it has none)
  and its canonical combining class (\<open>unicodedata.combining\<close>, 0 for a starter).
\<close>

record ucd =
  decomposition :: "codepoint \<Rightarrow> ustring"
  combining :: "codepoint \<Rightarrow> nat"

text \<open>
  Canonical ordering: every maximal run of code points with a non-zero combining
  class is sorted by class, stably.
\<close>

function canonical_order :: "(codepoint \<Rightarrow> nat) \<Rightarrow> ustring \<Rightarrow> ustring" where
  "canonical_order ccc [] = []"
| "canonical_order ccc (x # xs) =
     (if ccc x = 0 then x # canonical_order ccc xs
      else sort_key ccc (x # takeWhile (\<lambda>c. ccc c \<noteq> 0) xs)
             @ canonical_order ccc (dropWhile (\<lambda>c. ccc c \<noteq> 0) xs))"
  by pat_completeness auto
termination
  by (relation "measure (\<lambda>(ccc, xs). length xs)")
     (auto simp: length_dropWhile_le less_Suc_eq_le)

text \<open>\<open>unicodedata.normalize("NFKD", text)\<close>: decompose every code point, then order.\<close>

definition nfkd :: "ucd \<Rightarrow> ustring \<Rightarrow> ustring" where
  "nfkd db s = canonical_order (combining db) (concat (map (decomposition db) s))"

definition remove_accents :: "ucd \<Rightarrow> ustring \<Rightarrow> ustring" where
  "remove_accents db s = (let nfkd_form = nfkd db s
                          in filter (\<lambda>c. combining db c = 0) nfkd_form)"

text \<open>
  The rows of the Unicode Character Database for the French accented letters of
  Latin-1 (and U+0178), lower and upper case: a base letter followed by one combining
  mark. Basic Latin (below U+0080) has no decomposition and class 0. Code points that
  are not listed are left as they are; the theorems that use this table read it on
  Basic Latin and the listed letters only.
\<close>

definition french_decompositions :: "(codepoint \<times> ustring) list" where
  "french_decompositions =
     [(0xE0, [0x61, 0x300]), (0xE2, [0x61, 0x302]), (0xE4, [0x61, 0x308]),
      (0xE7, [0x63, 0x327]),
      (0xE8, [0x65, 0x300]), (0xE9, [0x65, 0x301]), (0xEA, [0x65, 0x302]),
      (0xEB, [0x65, 0x308]),
      (0xEE, [0x69, 0x302]), (0xEF, [0x69, 0x308]),
      (0xF4, [0x6F, 0x302]), (0xF6, [0x6F, 0x308]),
      (0xF9, [0x75, 0x300]), (0xFB, [0x75, 0x302]), (0xFC, [0x75, 0x308]),
      (0xFF, [0x79, 0x308]),
      (0xC0, [0x41, 0x300]), (0xC2, [0x41, 0x302]), (0xC4, [0x41, 0x308]),
      (0xC7, [0x43, 0x327]),
      (0xC8, [0x45, 0x300]), (0xC9, [0x45, 0x301]), (0xCA, [0x45, 0x302]),
      (0xCB, [0x45, 0x308]),
      (0xCE, [0x49, 0x302]), (0xCF, [0x49, 0x308]),
      (0xD4, [0x4F, 0x302]), (0xD6, [0x4F, 0x308]),
      (0xD9, [0x55, 0x300]), (0xDB, [0x55, 0x302]), (0xDC, [0x55, 0x308]),
      (0x178, [0x59, 0x308])]"

definition french_marks :: "(codepoint \<times> nat) list" where
  "french_marks = [(0x300, 230), (0x301, 230), (0x302, 230), (0x308, 230), (0x327, 202)]"

definition latin_ucd :: ucd where
  "latin_ucd =
     \<lparr>decomposition = (\<lambda>c. case map_of french_decompositions c of
                                Some d \<Rightarrow> d | None \<Rightarrow> [c]),
      combining = (\<lambda>c. case map_of french_marks c of Some k \<Rightarrow> k | None \<Rightarrow> 0)\<rparr>"

definition french_letter :: "codepoint \<Rightarrow> bool" where
  "french_letter c = (c < 0x80 \<or> c \<in> set (map fst french_decompositions))"

section \<open>Text normalisation\<close>

definition separator :: ustring where
  "separator = ascii ''||''"

text \<open>The first statement of \<open>prepare_text\<close>: \<open>text[:text.find("||")]\<close>.\<close>

definition keep_full_description :: "ustring \<Rightarrow> ustring" where
  "keep_full_description s = py_slice s 0 (find_str s separator)"

definition prepare_text :: "ucd \<Rightarrow> ustring \<Rightarrow> ustring" where
  "prepare_text db text_annotations_str_lower =
     (let s = text_annotations_str_lower;
          s = keep_full_description s;
          s = remove_accents db s;
          s = replace_char 0x2D 0x20 (replace_char 0x27 0x20 s)
      in s)"

text \<open>
  The truncation in the words of the specification: the prefix before the first
  occurrence of the marker; a string that holds no marker has nothing to cut and is
  kept whole.
\<close>

fun truncate_at :: "ustring \<Rightarrow> ustring \<Rightarrow> ustring" where
  "truncate_at sep [] = []"
| "truncate_at sep (x # xs) = (if prefix sep (x # xs) then [] else x # truncate_at sep xs)"

definition truncate_at_separator :: "ustring \<Rightarrow> ustring" where
  "truncate_at_separator s = truncate_at separator s"

text \<open>
  The second and third statements of \<open>prepare_text\<close> on their own: accent stripping,
  then apostrophes and hyphens replaced by spaces.
\<close>

definition strip_and_replace :: "ucd \<Rightarrow> ustring \<Rightarrow> ustring" where
  "strip_and_replace db s = replace_char 0x2D 0x20 (replace_char 0x27 0x20 (remove_accents db s))"

section \<open>Cities and OCR results\<close>

text \<open>
  The dataclass \<open>City\<close>. Python does not check the annotated field types: the loader
  stores whatever the JSON record holds, the extractor formats the postal code into a
  pattern. The record therefore leaves the types of the postal code and of the
  coordinates open; the extractor uses it with a string as postal code.
\<close>

record ('p, 'c) City =
  name :: ustring
  postal_code :: 'p
  coordinates :: 'c

text \<open>
  Modelled from the spec: \<open>OCRResult\<close> (\<open>robotoff.insights.ocr.dataclass\<close>) is not among
  the sources. The spec gives it an ordered list of text annotations, each carrying an
  optional locale tag, and one lowercase string of the full text in which a
  two-character marker separates the full description from the per-word annotations.
\<close>

record text_annotation =
  annotation_locale :: "ustring option"

record OCRResult =
  text_annotations :: "text_annotation list"
  text_annotations_str_lower :: ustring

definition get_locale :: "OCRResult \<Rightarrow> ustring option" where
  "get_locale ocr_result =
     (if length (text_annotations ocr_result) > 0
      then annotation_locale (text_annotations ocr_result ! 0)
      else None)"

section \<open>Searching the postal code near a city name\<close>

definition is_digit :: "codepoint \<Rightarrow> bool" where
  "is_digit c = (0x30 \<le> c \<and> c \<le> 0x39)"

text \<open>
  \<open>re.search\<close> for the pattern \<open>(?:[^0-9]|^)(CODE)(?:[^0-9]|$)\<close>, where \<open>CODE\<close> is the
  postal code put into the pattern by \<open>format\<close>. The model reads \<open>CODE\<close> as a literal,
  which is what the pattern means when the postal code is a string of digits; the
  theorems about what the search finds assume that.

  \<open>boundary_after s e\<close> is the last group tried at position \<open>e\<close>: a character that is
  not a digit is consumed, otherwise the end of the string matches without consuming.
  The result is the end of the match.
\<close>

definition boundary_after :: "ustring \<Rightarrow> nat \<Rightarrow> nat option" where
  "boundary_after s e =
     (if e < length s \<and> \<not> is_digit (s ! e) then Some (Suc e)
      else if e = length s then Some e
      else None)"

definition code_then_boundary :: "ustring \<Rightarrow> ustring \<Rightarrow> nat \<Rightarrow> nat option" where
  "code_then_boundary code s j =
     (if prefix code (drop j s) then boundary_after s (j + length code) else None)"

text \<open>
  A match attempt at start position \<open>i\<close>: the first alternative of the leading group
  consumes a character that is not a digit; when the rest fails after it, the second
  alternative matches the empty string at the start of the string.
\<close>

definition match_at :: "ustring \<Rightarrow> ustring \<Rightarrow> nat \<Rightarrow> nat option" where
  "match_at code s i =
     (case (if i < length s \<and> \<not> is_digit (s ! i) then code_then_boundary code s (Suc i)
            else None) of
        Some e \<Rightarrow> Some e
      | None \<Rightarrow> if i = 0 then code_then_boundary code s 0 else None)"

text \<open>The search tries the start positions \<open>0, ..., len(s)\<close> in this order.\<close>

definition search_postal_code :: "ustring \<Rightarrow> ustring \<Rightarrow> (nat \<times> nat) option" where
  "search_postal_code code s =
     (case List.find (\<lambda>i. match_at code s i \<noteq> None) [0..<Suc (length s)] of
        None \<Rightarrow> None
      | Some i \<Rightarrow> map_option (Pair i) (match_at code s i))"

definition search_window :: "ustring \<Rightarrow> int \<times> int \<Rightarrow> int \<times> int" where
  "search_window text span =
     (let max_distance = 10;
          sub_start = max 0 (fst span - max_distance);
          sub_end = min (int (length text)) (snd span + max_distance)
      in (sub_start, sub_end))"

text \<open>
  The result is \<open>(match.group(), sub_start + match.start(), sub_start + match.end())\<close>:
  group 0, the whole match.
\<close>

definition find_nearby_postal_code ::
  "ustring \<Rightarrow> (ustring, 'c) City \<Rightarrow> int \<times> int \<Rightarrow> (ustring \<times> int \<times> int) option" where
  "find_nearby_postal_code text city span =
     (let (sub_start, sub_end) = search_window text span;
          sub_text = py_slice text sub_start sub_end
      in case search_postal_code (postal_code city) sub_text of
           None \<Rightarrow> None
         | Some (i, e) \<Rightarrow>
             Some (take (e - i) (drop i sub_text), sub_start + int i, sub_start + int e))"

section \<open>Extracting locations\<close>

record extraction =
  cities :: "(ustring \<times> int \<times> int) list"
  full_cities :: "((ustring \<times> int \<times> int) \<times> (ustring \<times> int \<times> int)) list"
  addresses :: "ustring list"

text \<open>
  \<open>find_city_names\<close> calls \<open>extract_keywords(text, span_info=True)\<close> of the \<open>flashtext\<close>
  keyword processor built from the cities; the processor is a parameter.
\<close>

definition find_city_names ::
  "(ustring \<Rightarrow> ((ustring, 'c) City \<times> int \<times> int) list) \<Rightarrow> ustring
     \<Rightarrow> ((ustring, 'c) City \<times> int \<times> int) list" where
  "find_city_names cities_processor text = cities_processor text"

definition address_window :: "ustring \<Rightarrow> int \<times> int \<Rightarrow> ustring \<times> int \<times> int \<Rightarrow> int \<times> int" where
  "address_window text span nearby_code =
     (let surround_distance = 30;
          address_start = min (fst span) (fst (snd nearby_code)) - surround_distance;
          address_end = max (snd span) (snd (snd nearby_code)) + surround_distance
      in (max 0 address_start, min (int (length text)) address_end))"

text \<open>The loop of \<open>extract_location\<close>, with the two lists it appends to.\<close>

fun link_cities ::
  "ustring \<Rightarrow> ((ustring, 'c) City \<times> int \<times> int) list
     \<Rightarrow> ((ustring \<times> int \<times> int) \<times> (ustring \<times> int \<times> int)) list \<Rightarrow> ustring list
     \<Rightarrow> ((ustring \<times> int \<times> int) \<times> (ustring \<times> int \<times> int)) list \<times> ustring list" where
  "link_cities text [] full addrs = (full, addrs)"
| "link_cities text ((city, span) # rest) full addrs =
     (case find_nearby_postal_code text city span of
        None \<Rightarrow> link_cities text rest full addrs
      | Some nearby_code \<Rightarrow>
          (let (lo, hi) = address_window text span nearby_code
           in link_cities text rest
                (full @ [(nearby_code, (name city, span))])
                (addrs @ [py_slice text lo hi])))"

definition extract_location ::
  "ucd \<Rightarrow> (ustring \<Rightarrow> ((ustring, 'c) City \<times> int \<times> int) list) \<Rightarrow> OCRResult \<Rightarrow> extraction" where
  "extract_location db cities_processor ocr_result =
     (let loc = get_locale ocr_result
      in if loc \<noteq> Some (ascii ''fr'')
         then \<lparr>cities = [], full_cities = [], addresses = []\<rparr>
         else
           (let text = prepare_text db (text_annotations_str_lower ocr_result);
                found = find_city_names cities_processor text;
                (full, addrs) = link_cities text found [] []
            in \<lparr>cities = map (\<lambda>(c, span). (name c, span)) found,
                full_cities = full,
                addresses = addrs\<rparr>))"

text \<open>
  The address snippet in the words of the specification: both bounds are clipped to
  \<open>0..len(text)\<close> and the substring between them is returned.
\<close>

definition clip :: "nat \<Rightarrow> int \<Rightarrow> nat" where
  "clip n x = nat (max 0 (min (int n) x))"

definition substring :: "'a list \<Rightarrow> nat \<Rightarrow> nat \<Rightarrow> 'a list" where
  "substring xs a b = take (b - a) (drop a xs)"

definition assemble_spec :: "ustring \<Rightarrow> int \<times> int \<Rightarrow> int \<times> int \<Rightarrow> ustring" where
  "assemble_spec text city_span postal_span =
     (let start = min (fst city_span) (fst postal_span) - 30;
          end = max (snd city_span) (snd postal_span) + 30
      in substring text (clip (length text) start) (clip (length text) end))"

definition valid_span :: "nat \<Rightarrow> int \<times> int \<Rightarrow> bool" where
  "valid_span n span = (0 \<le> fst span \<and> fst span < snd span \<and> snd span \<le> int n)"

text \<open>
  Occurrences of the postal code in the searched text, and the digit-boundary rule: an
  occurrence has a digit neighbour when the character just before it or just after it
  (inside the searched text) is a digit.
\<close>

definition occurs_at :: "ustring \<Rightarrow> ustring \<Rightarrow> nat \<Rightarrow> bool" where
  "occurs_at code s j = (prefix code (drop j s) \<and> j + length code \<le> length s)"

definition digit_neighbour :: "ustring \<Rightarrow> ustring \<Rightarrow> nat \<Rightarrow> bool" where
  "digit_neighbour code s j =
     ((0 < j \<and> is_digit (s ! (j - 1))) \<or>
      (j + length code < length s \<and> is_digit (s ! (j + length code))))"

definition free_occurrence :: "ustring \<Rightarrow> ustring \<Rightarrow> nat \<Rightarrow> bool" where
  "free_occurrence code s j = (occurs_at code s j \<and> \<not> digit_neighbour code s j)"

text \<open>The text \<open>find_nearby_postal_code\<close> searches: \<open>text[sub_start:sub_end]\<close>.\<close>

definition search_text :: "ustring \<Rightarrow> int \<times> int \<Rightarrow> ustring" where
  "search_text text span = py_slice text (fst (search_window text span)) (snd (search_window text span))"

text \<open>
  The entry of \<open>full_cities\<close> a city match contributes: one when a postal code is
  found near it, none otherwise.
\<close>

definition linked_pair ::
  "ustring \<Rightarrow> (ustring, 'c) City \<times> int \<times> int
     \<Rightarrow> ((ustring \<times> int \<times> int) \<times> (ustring \<times> int \<times> int)) list" where
  "linked_pair text m =
     (case find_nearby_postal_code text (fst m) (snd m) of
        None \<Rightarrow> []
      | Some nearby_code \<Rightarrow> [(nearby_code, (name (fst m), snd m))])"

text \<open>Slice bounds that need no clipping by the slice itself.\<close>

definition window_in_bounds :: "nat \<Rightarrow> int \<times> int \<Rightarrow> bool" where
  "window_in_bounds n w = (0 \<le> fst w \<and> fst w \<le> snd w \<and> snd w \<le> int n)"

text \<open>Sample data for the concrete instances below.\<close>

definition paris :: "(ustring, unit) City" where
  "paris = \<lparr>name = ascii ''paris'', postal_code = ascii ''75001'', coordinates = ()\<rparr>"

definition lyon :: "(ustring, unit) City" where
  "lyon = \<lparr>name = ascii ''lyon'', postal_code = ascii ''69000'', coordinates = ()\<rparr>"

definition sample_ocr :: OCRResult where
  "sample_ocr =
     \<lparr>text_annotations = [\<lparr>annotation_locale = Some (ascii ''fr'')\<rparr>],
      text_annotations_str_lower = ascii ''lyon ou paris 75001 b||lyon''\<rparr>"

definition sample_processor :: "ustring \<Rightarrow> ((ustring, unit) City \<times> int \<times> int) list" where
  "sample_processor text = [(lyon, 0, 4), (paris, 8, 13)]"

section \<open>Loading the gazetteer\<close>

text \<open>
  The values \<open>json.load\<close> returns. Numbers (and the booleans, which Python compares
  with numbers by value) are one constructor over an open type; a \<open>dict\<close> is the list of
  its items, with distinct keys.
\<close>

datatype 'n pyval =
    PNone
  | PNum 'n
  | PStr ustring
  | PList "'n pyval list"
  | PDict "(ustring \<times> 'n pyval) list"

datatype error = GzipError | JSONDecodeError | KeyError ustring | TypeError | AttributeError

text \<open>
  What the loader takes from the standard library: the bundled resource, reading a
  gzip stream to its end (\<open>None\<close> when the stream is not validly compressed), parsing
  JSON (\<open>None\<close> when the text is not valid JSON) and \<open>str.lower\<close>.
\<close>

record ('s, 'b, 'n) library =
  resource :: 's
  gzip_read :: "'s \<Rightarrow> 'b option"
  json_loads :: "'b \<Rightarrow> 'n pyval option"
  str_lower :: "ustring \<Rightarrow> ustring"

text \<open>\<open>obj[key]\<close> with a string key: only a \<open>dict\<close> can be subscripted by a string.\<close>

definition getitem :: "'n pyval \<Rightarrow> ustring \<Rightarrow> error + 'n pyval" where
  "getitem obj key =
     (case obj of
        PDict kvs \<Rightarrow> (case map_of kvs key of None \<Rightarrow> Inl (KeyError key) | Some v \<Rightarrow> Inr v)
      | _ \<Rightarrow> Inl TypeError)"

text \<open>\<open>obj.get(key)\<close>: only a \<open>dict\<close> has the method.\<close>

definition get_method :: "'n pyval \<Rightarrow> ustring \<Rightarrow> error + 'n pyval" where
  "get_method obj key =
     (case obj of
        PDict kvs \<Rightarrow> (case map_of kvs key of None \<Rightarrow> Inr PNone | Some v \<Rightarrow> Inr v)
      | _ \<Rightarrow> Inl AttributeError)"

text \<open>
  Iteration, as \<open>for item in obj\<close> and \<open>tuple(obj)\<close> do it: the elements of a list, the
  keys of a \<open>dict\<close>, the characters of a string; nothing else is iterable.
\<close>

definition py_iter :: "'n pyval \<Rightarrow> error + 'n pyval list" where
  "py_iter obj =
     (case obj of
        PList xs \<Rightarrow> Inr xs
      | PDict kvs \<Rightarrow> Inr (map (\<lambda>kv. PStr (fst kv)) kvs)
      | PStr s \<Rightarrow> Inr (map (\<lambda>c. PStr [c]) s)
      | _ \<Rightarrow> Inl TypeError)"

definition lower_method :: "(ustring \<Rightarrow> ustring) \<Rightarrow> 'n pyval \<Rightarrow> error + ustring" where
  "lower_method lower obj = (case obj of PStr s \<Rightarrow> Inr (lower s) | _ \<Rightarrow> Inl AttributeError)"

text \<open>Lists and \<open>dict\<close>s cannot be hashed; a tuple can when its elements can.\<close>

definition hashable :: "'n pyval \<Rightarrow> bool" where
  "hashable obj = (case obj of PList xs \<Rightarrow> False | PDict kvs \<Rightarrow> False | _ \<Rightarrow> True)"

definition city_hashable :: "('n pyval, 'n pyval list option) City \<Rightarrow> bool" where
  "city_hashable c =
     (hashable (postal_code c) \<and>
      (case coordinates c of None \<Rightarrow> True | Some xs \<Rightarrow> list_all hashable xs))"

text \<open>The \<open>with\<close> block: open the source, decompress, parse.\<close>

definition read_json :: "('s, 'b, 'n) library \<Rightarrow> 's option \<Rightarrow> error + 'n pyval" where
  "read_json lib source =
     (let source = (case source of None \<Rightarrow> resource lib | Some s \<Rightarrow> s)
      in case gzip_read lib source of
           None \<Rightarrow> Inl GzipError
         | Some cities_file \<Rightarrow>
             (case json_loads lib cities_file of
                None \<Rightarrow> Inl JSONDecodeError
              | Some json_data \<Rightarrow> Inr json_data))"

text \<open>The body of the loop: one record to one \<open>City\<close>.\<close>

definition city_of_item ::
  "(ustring \<Rightarrow> ustring) \<Rightarrow> 'n pyval \<Rightarrow> error + ('n pyval, 'n pyval list option) City" where
  "city_of_item lower item =
     (case getitem item (ascii ''fields'') of
        Inl e \<Rightarrow> Inl e
      | Inr city_data \<Rightarrow>
     (case get_method city_data (ascii ''coordonnees_gps'') of
        Inl e \<Rightarrow> Inl e
      | Inr coords \<Rightarrow>
     (case (if coords \<noteq> PNone then map_sum id Some (py_iter coords) else Inr None) of
        Inl e \<Rightarrow> Inl e
      | Inr coords \<Rightarrow>
     (case getitem city_data (ascii ''nom_de_la_commune'') of
        Inl e \<Rightarrow> Inl e
      | Inr nom \<Rightarrow>
     (case lower_method lower nom of
        Inl e \<Rightarrow> Inl e
      | Inr nom_lower \<Rightarrow>
     (case getitem city_data (ascii ''code_postal'') of
        Inl e \<Rightarrow> Inl e
      | Inr code \<Rightarrow>
          Inr \<lparr>name = nom_lower, postal_code = code, coordinates = coords\<rparr>))))))"

fun build_cities ::
  "(ustring \<Rightarrow> ustring) \<Rightarrow> 'n pyval list \<Rightarrow> ('n pyval, 'n pyval list option) City list
     \<Rightarrow> error + ('n pyval, 'n pyval list option) City list" where
  "build_cities lower [] acc = Inr acc"
| "build_cities lower (item # rest) acc =
     (case city_of_item lower item of
        Inl e \<Rightarrow> Inl e
      | Inr c \<Rightarrow> build_cities lower rest (acc @ [c]))"

text \<open>
  \<open>list(set(cities))\<close>: building the set hashes every city; the order of the resulting
  list is not specified by Python, the model keeps the order of \<open>remdups\<close> and no theorem
  depends on it.
\<close>

definition load_cities_fr ::
  "('s, 'b, 'n) library \<Rightarrow> 's option
     \<Rightarrow> error + ('n pyval, 'n pyval list option) City list" where
  "load_cities_fr lib source =
     (case read_json lib source of
        Inl e \<Rightarrow> Inl e
      | Inr json_data \<Rightarrow>
     (case py_iter json_data of
        Inl e \<Rightarrow> Inl e
      | Inr items \<Rightarrow>
     (case build_cities (str_lower lib) items [] of
        Inl e \<Rightarrow> Inl e
      | Inr built \<Rightarrow>
          if list_all city_hashable built then Inr (remdups built) else Inl TypeError)))"

text \<open>
  The failure condition in the words of the specification: the stream is not validly
  compressed, or is not valid JSON, or the commune name or the postal code is absent
  from some record.
\<close>

definition field_present :: "'n pyval \<Rightarrow> ustring \<Rightarrow> bool" where
  "field_present item key =
     (case item of
        PDict kvs \<Rightarrow>
          (case map_of kvs (ascii ''fields'') of
             Some (PDict fs) \<Rightarrow> map_of fs key \<noteq> None
           | _ \<Rightarrow> False)
      | _ \<Rightarrow> False)"

definition required_absent :: "'n pyval \<Rightarrow> bool" where
  "required_absent item =
     (\<not> field_present item (ascii ''nom_de_la_commune'') \<or>
      \<not> field_present item (ascii ''code_postal''))"

definition records_of :: "'n pyval \<Rightarrow> 'n pyval list" where
  "records_of json_data = (case json_data of PList items \<Rightarrow> items | _ \<Rightarrow> [])"

definition format_error_expected :: "('s, 'b, 'n) library \<Rightarrow> 's option \<Rightarrow> bool" where
  "format_error_expected lib source =
     (case read_json lib source of
        Inl e \<Rightarrow> True
      | Inr json_data \<Rightarrow> list_ex required_absent (records_of json_data))"

text \<open>
  A document of the shape the loader is written for: an array of objects whose
  \<open>fields\<close> entry, when present, is an object in which the commune name and the postal
  code, when present, are strings, and the coordinates, when present, are \<open>null\<close> or an
  array of numbers.
\<close>

definition is_str :: "'n pyval \<Rightarrow> bool" where
  "is_str v = (case v of PStr s \<Rightarrow> True | _ \<Rightarrow> False)"

definition is_num :: "'n pyval \<Rightarrow> bool" where
  "is_num v = (case v of PNum x \<Rightarrow> True | _ \<Rightarrow> False)"

definition coords_shaped :: "'n pyval \<Rightarrow> bool" where
  "coords_shaped v = (case v of PNone \<Rightarrow> True | PList xs \<Rightarrow> list_all is_num xs | _ \<Rightarrow> False)"

definition fields_shaped :: "(ustring \<times> 'n pyval) list \<Rightarrow> bool" where
  "fields_shaped fs =
     ((case map_of fs (ascii ''nom_de_la_commune'') of None \<Rightarrow> True | Some v \<Rightarrow> is_str v) \<and>
      (case map_of fs (ascii ''code_postal'') of None \<Rightarrow> True | Some v \<Rightarrow> is_str v) \<and>
      (case map_of fs (ascii ''coordonnees_gps'') of None \<Rightarrow> True | Some v \<Rightarrow> coords_shaped v))"

definition record_shaped :: "'n pyval \<Rightarrow> bool" where
  "record_shaped item =
     (case item of
        PDict kvs \<Rightarrow>
          (case map_of kvs (ascii ''fields'') of
             None \<Rightarrow> True
           | Some (PDict fs) \<Rightarrow> fields_shaped fs
           | Some _ \<Rightarrow> False)
      | _ \<Rightarrow> False)"

definition well_shaped :: "'n pyval \<Rightarrow> bool" where
  "well_shaped json_data =
     (case json_data of PList items \<Rightarrow> list_all record_shaped items | _ \<Rightarrow> False)"

text \<open>
  A library for the concrete instances: the source is the parsed document itself, and
  \<open>lower\<close> acts on the ASCII letters.
\<close>

definition ascii_lower :: "ustring \<Rightarrow> ustring" where
  "ascii_lower s = map (\<lambda>c. if 0x41 \<le> c \<and> c \<le> 0x5A then c + 0x20 else c) s"

definition direct_library :: "(int pyval, int pyval, int) library" where
  "direct_library =
     \<lparr>resource = PList [], gzip_read = Some, json_loads = Some, str_lower = ascii_lower\<rparr>"

definition commune :: "string \<Rightarrow> string \<Rightarrow> (ustring \<times> int pyval) list \<Rightarrow> int pyval" where
  "commune nom code others =
     PDict [(ascii ''fields'',
             PDict ([(ascii ''nom_de_la_commune'', PStr (ascii nom)),
                     (ascii ''code_postal'', PStr (ascii code))] @ others))]"

definition numeric_name_document :: "int pyval" where
  "numeric_name_document =
     PList [PDict [(ascii ''fields'',
                    PDict [(ascii ''nom_de_la_commune'', PNum 5),
                           (ascii ''code_postal'', PStr (ascii ''75001''))])]]"

definition duplicate_document :: "int pyval" where
  "duplicate_document =
     PList [commune ''Paris'' ''75001'' [], commune ''Paris'' ''75001'' []]"

definition projected_document :: "int pyval" where
  "projected_document =
     PList [commune ''Paris'' ''75001'' [(ascii ''code_commune_insee'', PStr (ascii ''75101''))],
            commune ''PARIS'' ''75001'' [(ascii ''code_commune_insee'', PStr (ascii ''75056''))]]"

definition missing_code_document :: "int pyval" where
  "missing_code_document =
     PList [commune ''Lyon'' ''69000'' [],
            PDict [(ascii ''fields'', PDict [(ascii ''nom_de_la_commune'', PStr (ascii ''Paris''))])]]"

definition no_coordinates_document :: "int pyval" where
  "no_coordinates_document =
     PList [commune ''Paris'' ''75001'' [(ascii ''coordonnees_gps'', PList [PNum 48, PNum 2])],
            commune ''Lyon'' ''69000'' []]"

section \<open>Properties of the normalisation\<close>

lemma find_from_absent:
  "sub \<noteq> [] \<Longrightarrow> (\<forall>j. \<not> prefix sub (drop j s)) \<Longrightarrow> find_from sub s i = - 1"
proof (induction s arbitrary: i)
  case Nil
  then show ?case by simp
next
  case (Cons x xs)
  from Cons.prems(2) have "\<not> prefix sub (drop 0 (x # xs))" by blast
  then have h: "\<not> prefix sub (x # xs)" by simp
  have "\<forall>j. \<not> prefix sub (drop j xs)"
  proof
    fix j
    from Cons.prems(2) have "\<not> prefix sub (drop (Suc j) (x # xs))" by blast
    then show "\<not> prefix sub (drop j xs)" by simp
  qed
  with Cons.IH [OF Cons.prems(1)] h show ?case by simp
qed

lemma find_from_first:
  "prefix sub (drop j s) \<Longrightarrow> j \<le> length s \<Longrightarrow> (\<forall>k<j. \<not> prefix sub (drop k s))
     \<Longrightarrow> find_from sub s i = int (i + j)"
proof (induction s arbitrary: i j)
  case Nil
  then show ?case by simp
next
  case (Cons x xs)
  show ?case
  proof (cases j)
    case 0
    with Cons.prems show ?thesis by simp
  next
    case (Suc j')
    from Cons.prems(3) Suc have "\<not> prefix sub (drop 0 (x # xs))" by blast
    then have h: "\<not> prefix sub (x # xs)" by simp
    have p: "prefix sub (drop j' xs)" using Cons.prems(1) Suc by simp
    have l: "j' \<le> length xs" using Cons.prems(2) Suc by simp
    have "\<forall>k<j'. \<not> prefix sub (drop k xs)"
    proof (intro allI impI)
      fix k assume "k < j'"
      then have "Suc k < j" using Suc by simp
      with Cons.prems(3) have "\<not> prefix sub (drop (Suc k) (x # xs))" by blast
      then show "\<not> prefix sub (drop k xs)" by simp
    qed
    from Cons.IH [OF p l this, of "Suc i"] h Suc show ?thesis by simp
  qed
qed

lemma py_slice_prefix:
  "0 \<le> hi \<Longrightarrow> py_slice xs 0 hi = take (nat hi) xs"
  by (auto simp: py_slice_def slice_index_def Let_def min_def)

lemma py_slice_minus_one: "py_slice xs 0 (- 1) = butlast xs"
proof -
  have "nat (max 0 (- 1 + int (length xs))) = length xs - 1" by (cases xs) simp_all
  then show ?thesis
    by (simp add: py_slice_def slice_index_def Let_def butlast_conv_take)
qed

lemma separator_nonempty: "separator \<noteq> []"
  by (simp add: separator_def ascii_def)

lemma keep_absent:
  "\<forall>j. \<not> prefix separator (drop j s) \<Longrightarrow> keep_full_description s = butlast s"
  by (simp add: keep_full_description_def find_str_def find_from_absent separator_nonempty py_slice_minus_one)

lemma keep_present:
  "prefix separator (drop j s) \<Longrightarrow> j \<le> length s \<Longrightarrow> (\<forall>k<j. \<not> prefix separator (drop k s))
    \<Longrightarrow> keep_full_description s = take j s"
  using find_from_first [of separator j s 0]
  by (simp add: keep_full_description_def find_str_def py_slice_prefix)

lemma filter_sort_key_none:
  "\<forall>c\<in>set xs. ccc c \<noteq> 0 \<Longrightarrow> filter (\<lambda>c. ccc c = 0) (sort_key f xs) = []"
  unfolding filter_empty_conv set_sort by blast

lemma filter_canonical_order:
  "filter (\<lambda>c. ccc c = 0) (canonical_order ccc xs) = filter (\<lambda>c. ccc c = 0) xs"
proof (induction ccc xs rule: canonical_order.induct)
  case (1 ccc)
  then show ?case by simp
next
  case (2 ccc x xs)
  show ?case
  proof (cases "ccc x = 0")
    case True
    with 2 show ?thesis by simp
  next
    case False
    have "\<forall>c\<in>set (x # takeWhile (\<lambda>c. ccc c \<noteq> 0) xs). ccc c \<noteq> 0"
      using False by (auto dest: set_takeWhileD)
    then have a: "filter (\<lambda>c. ccc c = 0) (sort_key ccc (x # takeWhile (\<lambda>c. ccc c \<noteq> 0) xs)) = []"
      by (rule filter_sort_key_none)
    have b: "filter (\<lambda>c. ccc c = 0) (takeWhile (\<lambda>c. ccc c \<noteq> 0) xs) = []"
      by (auto simp: filter_empty_conv dest: set_takeWhileD)
    have "filter (\<lambda>c. ccc c = 0) xs =
          filter (\<lambda>c. ccc c = 0) (takeWhile (\<lambda>c. ccc c \<noteq> 0) xs @ dropWhile (\<lambda>c. ccc c \<noteq> 0) xs)"
      by simp
    also have "\<dots> = filter (\<lambda>c. ccc c = 0) (dropWhile (\<lambda>c. ccc c \<noteq> 0) xs)"
      unfolding filter_append b by simp
    finally have c: "filter (\<lambda>c. ccc c = 0) xs = filter (\<lambda>c. ccc c = 0) (dropWhile (\<lambda>c. ccc c \<noteq> 0) xs)" .
    from False have "canonical_order ccc (x # xs) = sort_key ccc (x # takeWhile (\<lambda>c. ccc c \<noteq> 0) xs)
             @ canonical_order ccc (dropWhile (\<lambda>c. ccc c \<noteq> 0) xs)" by simp
    then have "filter (\<lambda>c. ccc c = 0) (canonical_order ccc (x # xs)) =
       filter (\<lambda>c. ccc c = 0) (canonical_order ccc (dropWhile (\<lambda>c. ccc c \<noteq> 0) xs))"
      using a by (simp only: filter_append) simp
    also have "\<dots> = filter (\<lambda>c. ccc c = 0) (dropWhile (\<lambda>c. ccc c \<noteq> 0) xs)"
      using 2(2) [OF False] .
    also have "\<dots> = filter (\<lambda>c. ccc c = 0) (x # xs)" using c False by simp
    finally show ?thesis .
  qed
qed

lemma remove_accents_concat:
  "remove_accents db s = concat (map (\<lambda>c. filter (\<lambda>d. combining db d = 0) (decomposition db c)) s)"
  by (simp add: remove_accents_def nfkd_def filter_canonical_order filter_concat comp_def)

lemma remove_accents_append:
  "remove_accents db (s @ t) = remove_accents db s @ remove_accents db t"
  by (simp add: remove_accents_concat)

lemma length_remove_accents:
  "\<forall>c\<in>set s. length (filter (\<lambda>d. combining db d = 0) (decomposition db c)) = 1
     \<Longrightarrow> length (remove_accents db s) = length s"
  by (induction s) (simp_all add: remove_accents_concat)

lemma length_prepare_text:
  "length (prepare_text db s) = length (remove_accents db (keep_full_description s))"
  by (simp add: prepare_text_def replace_char_def Let_def)


lemma listed_above_ascii:
  "list_all (\<lambda>k. 0x80 \<le> k) (map fst french_decompositions) \<and>
   list_all (\<lambda>k. 0x80 \<le> k) (map fst french_marks)"
  by (simp add: french_decompositions_def french_marks_def)

lemma ascii_latin:
  assumes "c < 0x80"
  shows "decomposition latin_ucd c = [c] \<and> combining latin_ucd c = 0"
proof -
  have "c \<notin> set (map fst french_decompositions)" "c \<notin> set (map fst french_marks)"
    using assms listed_above_ascii unfolding list_all_iff by fastforce+
  then have "map_of french_decompositions c = None" "map_of french_marks c = None"
    by (simp_all only: map_of_eq_None_iff set_map not_False_eq_True)
  then show ?thesis by (simp add: latin_ucd_def)
qed

lemma listed_one_base:
  "list_all (\<lambda>c. length (filter (\<lambda>d. combining latin_ucd d = 0) (decomposition latin_ucd c)) = 1)
     (map fst french_decompositions)"
  by (simp add: latin_ucd_def french_decompositions_def french_marks_def)

lemma french_one_base:
  "french_letter c \<Longrightarrow>
     length (filter (\<lambda>d. combining latin_ucd d = 0) (decomposition latin_ucd c)) = 1"
  using listed_one_base unfolding french_letter_def list_all_iff
  by (auto simp: ascii_latin)

lemma sublist_iff_prefix_drop: "sublist xs ys \<longleftrightarrow> (\<exists>j. prefix xs (drop j ys))"
proof
  assume "sublist xs ys"
  then obtain ps ss where "ys = ps @ xs @ ss" by (auto simp: sublist_def)
  then have "prefix xs (drop (length ps) ys)" by simp
  then show "\<exists>j. prefix xs (drop j ys)" ..
next
  assume "\<exists>j. prefix xs (drop j ys)"
  then obtain j zs where "drop j ys = xs @ zs" by (auto simp: prefix_def)
  then have "ys = take j ys @ xs @ zs" by (metis append_take_drop_id)
  then show "sublist xs ys" unfolding sublist_def by blast
qed

lemma prepare_text_steps:
  "prepare_text db s = strip_and_replace db (keep_full_description s)"
  by (simp add: prepare_text_def strip_and_replace_def Let_def)

lemma length_strip_and_replace:
  "length (strip_and_replace db s) = length (remove_accents db s)"
  by (simp add: strip_and_replace_def replace_char_def)

lemma remove_accents_butlast:
  "s \<noteq> [] \<Longrightarrow> remove_accents db s = remove_accents db (butlast s) @ remove_accents db [last s]"
  using remove_accents_append [of db "butlast s" "[last s]"] by simp

text \<open>
  Claim C10. When the input holds no \<open>||\<close>, \<open>find\<close> returns \<open>-1\<close> and the slice
  \<open>text[:-1]\<close> drops the last character: \<open>prepare_text\<close> returns the accent-stripped,
  punctuation-replaced input without its last character, the kept prefix is one
  character shorter than the input, and the result differs from the normalisation of
  the whole input as soon as the last character leaves something behind after accent
  stripping (which every character that is not a combining mark does).
\<close>

theorem prepare_text_drops_last_without_separator:
  assumes "\<not> sublist separator s"
  shows "prepare_text db s = strip_and_replace db (butlast s) \<and>
         length (keep_full_description s) = length s - 1 \<and>
         (s \<noteq> [] \<and> remove_accents db [last s] \<noteq> []
            \<longrightarrow> prepare_text db s \<noteq> strip_and_replace db s)"
proof -
  from assms have absent: "\<forall>j. \<not> prefix separator (drop j s)"
    by (simp add: sublist_iff_prefix_drop)
  then have k: "keep_full_description s = butlast s" by (rule keep_absent)
  then have a: "prepare_text db s = strip_and_replace db (butlast s)"
    by (simp add: prepare_text_steps)
  have b: "length (keep_full_description s) = length s - 1" using k by simp
  have c: "prepare_text db s \<noteq> strip_and_replace db s"
    if "s \<noteq> []" "remove_accents db [last s] \<noteq> []"
  proof -
    have "length (strip_and_replace db s) =
          length (remove_accents db (butlast s)) + length (remove_accents db [last s])"
      using remove_accents_butlast [OF that(1), of db] by (simp add: length_strip_and_replace)
    moreover have "length (prepare_text db s) = length (remove_accents db (butlast s))"
      using a by (simp add: length_strip_and_replace)
    moreover have "0 < length (remove_accents db [last s])" using that(2) by simp
    ultimately show ?thesis by auto
  qed
  from a b c show ?thesis by blast
qed

theorem prepare_text_drops_last_witness:
  "\<not> sublist separator (ascii ''abc'') \<and>
   prepare_text latin_ucd (ascii ''abc'') = ascii ''ab'' \<and>
   strip_and_replace latin_ucd (ascii ''abc'') = ascii ''abc''"
proof -
  have h: "\<not> sublist separator (ascii ''abc'')"
    by (simp add: separator_def ascii_def sublist_Cons_right)
  have "strip_and_replace latin_ucd (butlast (ascii ''abc'')) = ascii ''ab''"
    by (simp add: strip_and_replace_def remove_accents_concat replace_char_def ascii_def ascii_latin)
  moreover have "strip_and_replace latin_ucd (ascii ''abc'') = ascii ''abc''"
    by (simp add: strip_and_replace_def remove_accents_concat replace_char_def ascii_def ascii_latin)
  ultimately show ?thesis
    using h prepare_text_drops_last_without_separator [OF h, of latin_ucd] by simp
qed

text \<open>
  On an input made of Basic Latin characters and the French accented letters, accent
  stripping leaves exactly one character for each character and the replacement of
  apostrophes and hyphens is one for one, so \<open>prepare_text\<close> returns a string as long as
  the prefix kept by its first statement; when the input holds the marker \<open>||\<close>, with its
  first occurrence at index \<open>i\<close>, the kept prefix is the first \<open>i\<close> characters and the
  result has length \<open>i\<close>.
\<close>

lemma prepare_text_length_kept_prefix:
  assumes "\<forall>c\<in>set s. french_letter c"
  shows "length (prepare_text latin_ucd s) = length (keep_full_description s) \<and>
         (\<forall>i. i \<le> length s \<and> prefix separator (drop i s) \<and>
                (\<forall>k<i. \<not> prefix separator (drop k s))
              \<longrightarrow> keep_full_description s = take i s \<and> length (prepare_text latin_ucd s) = i)"
proof -
  have sub: "set (keep_full_description s) \<subseteq> set s"
    unfolding keep_full_description_def py_slice_def Let_def
    by (meson set_take_subset set_drop_subset subset_trans)
  then have "\<forall>c\<in>set (keep_full_description s).
      length (filter (\<lambda>d. combining latin_ucd d = 0) (decomposition latin_ucd c)) = 1"
    using assms french_one_base by blast
  then have a: "length (prepare_text latin_ucd s) = length (keep_full_description s)"
    by (simp add: length_prepare_text length_remove_accents)
  have b: "keep_full_description s = take i s \<and> length (prepare_text latin_ucd s) = i"
    if "i \<le> length s" "prefix separator (drop i s)" "\<forall>k<i. \<not> prefix separator (drop k s)" for i
    using keep_present [OF that(2) that(1) that(3)] a that(1) by simp
  from a b show ?thesis by blast
qed

lemma prepare_text_length_kept_prefix_example:
  "list_all french_letter [0xE9, 0x74, 0xE9, 0x7C, 0x7C, 0x61] \<and>
   prefix separator (drop 3 [0xE9, 0x74, 0xE9, 0x7C, 0x7C, 0x61]) \<and>
   keep_full_description [0xE9, 0x74, 0xE9, 0x7C, 0x7C, 0x61] = [0xE9, 0x74, 0xE9] \<and>
   length (prepare_text latin_ucd [0xE9, 0x74, 0xE9, 0x7C, 0x7C, 0x61]) = 3"
proof -
  let ?s = "[0xE9, 0x74, 0xE9, 0x7C, 0x7C, 0x61] :: ustring"
  have h: "\<forall>c\<in>set ?s. french_letter c"
    by (simp add: french_letter_def french_decompositions_def)
  have p: "prefix separator (drop 3 ?s)"
    by (simp add: separator_def ascii_def sublist_Cons_right)
  have f: "\<forall>k<3. \<not> prefix separator (drop k ?s)"
    by (simp add: separator_def ascii_def numeral_3_eq_3 less_Suc_eq)
  have l: "(3::nat) \<le> length ?s" by simp
  from prepare_text_length_kept_prefix [OF h] l p f
  have "keep_full_description ?s = take 3 ?s \<and> length (prepare_text latin_ucd ?s) = 3"
    by blast
  then show ?thesis using h p by (simp add: list_all_iff)
qed

lemma truncate_at_absent:
  "\<forall>j. \<not> prefix sep (drop j s) \<Longrightarrow> truncate_at sep s = s"
proof (induction s)
  case Nil
  then show ?case by simp
next
  case (Cons x xs)
  from Cons.prems have "\<not> prefix sep (drop 0 (x # xs))" by blast
  then have h: "\<not> prefix sep (x # xs)" by simp
  have "\<forall>j. \<not> prefix sep (drop j xs)"
  proof
    fix j
    from Cons.prems have "\<not> prefix sep (drop (Suc j) (x # xs))" by blast
    then show "\<not> prefix sep (drop j xs)" by simp
  qed
  with Cons.IH h show ?case by simp
qed

lemma truncate_at_first:
  "prefix sep (drop i s) \<Longrightarrow> i \<le> length s \<Longrightarrow> (\<forall>k<i. \<not> prefix sep (drop k s))
     \<Longrightarrow> truncate_at sep s = take i s"
proof (induction s arbitrary: i)
  case Nil
  then show ?case by simp
next
  case (Cons x xs)
  show ?case
  proof (cases i)
    case 0
    with Cons.prems show ?thesis by simp
  next
    case (Suc i')
    from Cons.prems(3) Suc have "\<not> prefix sep (drop 0 (x # xs))" by blast
    then have h: "\<not> prefix sep (x # xs)" by simp
    have p: "prefix sep (drop i' xs)" using Cons.prems(1) Suc by simp
    have l: "i' \<le> length xs" using Cons.prems(2) Suc by simp
    have "\<forall>k<i'. \<not> prefix sep (drop k xs)"
    proof (intro allI impI)
      fix k assume "k < i'"
      then have "Suc k < i" using Suc by simp
      with Cons.prems(3) have "\<not> prefix sep (drop (Suc k) (x # xs))" by blast
      then show "\<not> prefix sep (drop k xs)" by simp
    qed
    from Cons.IH [OF p l this] h Suc show ?thesis by simp
  qed
qed

text \<open>
  With the marker in the input the code cuts where the specification cuts, and the
  lengths agree.
\<close>

lemma prepare_text_length_with_separator:
  assumes "\<forall>c\<in>set s. french_letter c" and "sublist separator s"
  shows "keep_full_description s = truncate_at_separator s \<and>
         length (prepare_text latin_ucd s) = length (truncate_at_separator s)"
proof -
  from assms(2) have ex: "\<exists>j. prefix separator (drop j s)"
    by (simp add: sublist_iff_prefix_drop)
  define i where "i = (LEAST j. prefix separator (drop j s))"
  from ex have p: "prefix separator (drop i s)" unfolding i_def by (rule LeastI_ex)
  have f: "\<forall>k<i. \<not> prefix separator (drop k s)"
    unfolding i_def using not_less_Least by blast
  have l: "i \<le> length s"
  proof (rule ccontr)
    assume "\<not> i \<le> length s"
    then have "drop i s = []" by simp
    with p show False by (simp add: separator_nonempty)
  qed
  from keep_present [OF p l f] truncate_at_first [OF p l f]
  have "keep_full_description s = truncate_at_separator s"
    by (simp add: truncate_at_separator_def)
  with prepare_text_length_kept_prefix [OF assms(1)] show ?thesis by simp
qed

text \<open>
  Without the marker the specification keeps the whole string and the code drops its
  last character: the result is one character short.
\<close>

lemma prepare_text_length_without_separator:
  assumes "\<forall>c\<in>set s. french_letter c" and "\<not> sublist separator s"
  shows "truncate_at_separator s = s \<and> length (prepare_text latin_ucd s) = length s - 1"
proof -
  from assms(2) have absent: "\<forall>j. \<not> prefix separator (drop j s)"
    by (simp add: sublist_iff_prefix_drop)
  then have "truncate_at_separator s = s"
    by (simp add: truncate_at_separator_def truncate_at_absent)
  moreover from keep_absent [OF absent] prepare_text_length_kept_prefix [OF assms(1)]
  have "length (prepare_text latin_ucd s) = length s - 1" by simp
  ultimately show ?thesis by simp
qed

text \<open>
  Claim C7. The length is not preserved on every input of Basic Latin characters and
  French accented letters: \<open>"abc"\<close> holds no marker, so truncating it at the first marker
  leaves its three characters, while \<open>prepare_text\<close> returns \<open>"ab"\<close>, of length 2. The
  first statement of \<open>prepare_text\<close> slices with the \<open>-1\<close> that \<open>find\<close> returns.
\<close>

theorem prepare_text_length_differs_at_abc:
  "list_all french_letter (ascii ''abc'') \<and>
   \<not> sublist separator (ascii ''abc'') \<and>
   truncate_at_separator (ascii ''abc'') = ascii ''abc'' \<and>
   length (truncate_at_separator (ascii ''abc'')) = 3 \<and>
   prepare_text latin_ucd (ascii ''abc'') = ascii ''ab'' \<and>
   length (prepare_text latin_ucd (ascii ''abc'')) = 2 \<and>
   length (prepare_text latin_ucd (ascii ''abc'')) \<noteq> length (truncate_at_separator (ascii ''abc''))"
proof -
  have a: "list_all french_letter (ascii ''abc'')"
    by (simp add: ascii_def french_letter_def)
  have b: "\<not> sublist separator (ascii ''abc'')"
    by (simp add: separator_def ascii_def sublist_Cons_right)
  have c: "truncate_at_separator (ascii ''abc'') = ascii ''abc''"
    by (simp add: truncate_at_separator_def separator_def ascii_def)
  have d: "prepare_text latin_ucd (ascii ''abc'') = ascii ''ab''"
    by (simp add: prepare_text_steps keep_full_description_def find_str_def separator_def
        py_slice_def slice_index_def strip_and_replace_def remove_accents_concat replace_char_def
        ascii_def ascii_latin)
  from a b c d show ?thesis by (simp add: ascii_def)
qed

text \<open>
  Claim C2. \<open>prepare_text\<close> is not idempotent on its own outputs: \<open>"ab"\<close> is the output
  for \<open>"ab||"\<close>, it holds no marker, and preparing it again drops its last character.
\<close>

theorem prepare_text_not_idempotent_at_ab:
  "prepare_text latin_ucd (ascii ''ab||'') = ascii ''ab'' \<and>
   prepare_text latin_ucd (ascii ''ab'') = ascii ''a'' \<and>
   prepare_text latin_ucd (prepare_text latin_ucd (ascii ''ab||''))
     \<noteq> prepare_text latin_ucd (ascii ''ab||'')"
  by (simp add: prepare_text_steps keep_full_description_def find_str_def separator_def
      py_slice_def slice_index_def strip_and_replace_def remove_accents_concat replace_char_def
      ascii_def ascii_latin)

section \<open>Properties of the postal code search and of the extraction\<close>

lemma boundary_after_Some:
  "boundary_after s e = Some e' \<Longrightarrow>
     e \<le> e' \<and> e' \<le> length s \<and> e \<le> length s \<and> (e' = e \<longrightarrow> e = length s) \<and>
     \<not> (e < length s \<and> is_digit (s ! e))"
  by (auto simp: boundary_after_def split: if_splits)

lemma code_then_boundary_Some:
  assumes "code_then_boundary code s j = Some e"
  shows "prefix code (drop j s)" "j + length code \<le> e" "e \<le> length s"
    "e = j + length code \<longrightarrow> e = length s"
    "\<not> (j + length code < length s \<and> is_digit (s ! (j + length code)))"
proof -
  from assms have p: "prefix code (drop j s)" and b: "boundary_after s (j + length code) = Some e"
    by (auto simp: code_then_boundary_def split: if_splits)
  show "prefix code (drop j s)" by (rule p)
  from boundary_after_Some [OF b]
  show "j + length code \<le> e" "e \<le> length s" "e = j + length code \<longrightarrow> e = length s"
    "\<not> (j + length code < length s \<and> is_digit (s ! (j + length code)))"
    by auto
qed

lemma match_at_cases:
  assumes "match_at code s i = Some e"
  shows "(i < length s \<and> \<not> is_digit (s ! i) \<and> code_then_boundary code s (Suc i) = Some e)
         \<or> (i = 0 \<and> code_then_boundary code s 0 = Some e)"
  using assms by (auto simp: match_at_def split: if_splits option.splits)

lemma match_at_bounds:
  assumes "match_at code s i = Some e"
  shows "i \<le> e \<and> e \<le> length s \<and> (s \<noteq> [] \<longrightarrow> i < e)"
  using match_at_cases [OF assms]
proof
  assume a: "i < length s \<and> \<not> is_digit (s ! i) \<and> code_then_boundary code s (Suc i) = Some e"
  then have "code_then_boundary code s (Suc i) = Some e" by simp
  from code_then_boundary_Some(2,3) [OF this] show ?thesis by simp
next
  assume b: "i = 0 \<and> code_then_boundary code s 0 = Some e"
  then have c: "code_then_boundary code s 0 = Some e" by simp
  from code_then_boundary_Some(2,3,4) [OF c] b show ?thesis by auto
qed

lemma match_at_free_occurrence:
  assumes "match_at code s i = Some e"
  shows "\<exists>j. free_occurrence code s j"
  using match_at_cases [OF assms]
proof
  assume a: "i < length s \<and> \<not> is_digit (s ! i) \<and> code_then_boundary code s (Suc i) = Some e"
  then have c: "code_then_boundary code s (Suc i) = Some e" by simp
  from code_then_boundary_Some [OF c] a have "free_occurrence code s (Suc i)"
    by (auto simp: free_occurrence_def occurs_at_def digit_neighbour_def)
  then show ?thesis ..
next
  assume b: "i = 0 \<and> code_then_boundary code s 0 = Some e"
  then have c: "code_then_boundary code s 0 = Some e" by simp
  from code_then_boundary_Some [OF c] have "free_occurrence code s 0"
    by (auto simp: free_occurrence_def occurs_at_def digit_neighbour_def)
  then show ?thesis ..
qed

lemma search_postal_code_Some:
  assumes "search_postal_code code s = Some (i, e)"
  shows "match_at code s i = Some e"
proof -
  from assms obtain i' where f: "List.find (\<lambda>i. match_at code s i \<noteq> None) [0..<Suc (length s)] = Some i'"
    and m: "map_option (Pair i') (match_at code s i') = Some (i, e)"
    by (auto simp: search_postal_code_def split: option.splits)
  from m show ?thesis by auto
qed

lemma search_postal_code_None:
  assumes "\<forall>i. match_at code s i = None"
  shows "search_postal_code code s = None"
proof -
  have "List.find (\<lambda>i. match_at code s i \<noteq> None) [0..<Suc (length s)] = None"
    using assms by (simp add: find_None_iff)
  then show ?thesis by (simp add: search_postal_code_def)
qed

lemma find_nearby_None:
  assumes "\<forall>j. \<not> free_occurrence (postal_code city) (search_text text span) j"
  shows "find_nearby_postal_code text city span = None"
proof -
  let ?sub = "search_text text span"
  have "\<forall>i. match_at (postal_code city) ?sub i = None"
  proof
    fix i
    show "match_at (postal_code city) ?sub i = None"
    proof (cases "match_at (postal_code city) ?sub i")
      case None then show ?thesis .
    next
      case (Some e)
      from match_at_free_occurrence [OF this] assms show ?thesis by blast
    qed
  qed
  then have "search_postal_code (postal_code city) ?sub = None" by (rule search_postal_code_None)
  then show ?thesis by (simp add: find_nearby_postal_code_def search_text_def case_prod_beta Let_def)
qed

text \<open>
  Claim C3. For a postal code made of digits: when every occurrence of the postal code
  in the clipped search window has a digit just before it or just after it inside the
  window, \<open>find_nearby_postal_code\<close> returns \<open>None\<close>. The instance below is the search
  for \<open>75001\<close> next to \<open>975001\<close>.
\<close>

theorem find_nearby_postal_code_rejects_digit_neighbours:
  assumes "list_all is_digit (postal_code city)"
    and "\<forall>j. occurs_at (postal_code city) (search_text text span) j
              \<longrightarrow> digit_neighbour (postal_code city) (search_text text span) j"
  shows "find_nearby_postal_code text city span = None"
proof (rule find_nearby_None)
  show "\<forall>j. \<not> free_occurrence (postal_code city) (search_text text span) j"
    using assms(2) by (simp add: free_occurrence_def)
qed

lemma search_text_975001:
  "search_text (ascii ''code 975001 reference'') (0, 4) = ascii ''code 975001 re''"
  by (simp add: search_text_def search_window_def py_slice_def slice_index_def ascii_def)

theorem find_nearby_postal_code_975001_witness:
  "list_all is_digit (postal_code paris) \<and>
   occurs_at (postal_code paris) (search_text (ascii ''code 975001 reference'') (0, 4)) 6 \<and>
   digit_neighbour (postal_code paris) (search_text (ascii ''code 975001 reference'') (0, 4)) 6 \<and>
   find_nearby_postal_code (ascii ''code 975001 reference'') paris (0, 4) = None"
proof -
  let ?sub = "search_text (ascii ''code 975001 reference'') (0, 4)"
  have d: "list_all is_digit (postal_code paris)"
    by (simp add: paris_def ascii_def is_digit_def)
  have o: "occurs_at (postal_code paris) ?sub 6"
    unfolding search_text_975001 by (simp add: occurs_at_def paris_def ascii_def)
  have n: "digit_neighbour (postal_code paris) ?sub 6"
    unfolding search_text_975001 by (simp add: digit_neighbour_def paris_def ascii_def is_digit_def)
  have only: "j = 6" if "occurs_at (postal_code paris) ?sub j" for j
  proof -
    from that have "j < 10"
      unfolding search_text_975001 by (simp add: occurs_at_def paris_def ascii_def)
    then have "j \<in> {0, 1, 2, 3, 4, 5, 6, 7, 8, 9}" by auto
    with that show ?thesis
      unfolding search_text_975001 by (auto simp: occurs_at_def paris_def ascii_def)
  qed
  have "\<forall>j. occurs_at (postal_code paris) ?sub j \<longrightarrow> digit_neighbour (postal_code paris) ?sub j"
    using only n by blast
  from find_nearby_postal_code_rejects_digit_neighbours [OF d this] d o n
  show ?thesis by blast
qed

text \<open>
  Claim C1. The span returned by \<open>find_nearby_postal_code\<close> is the span of the whole
  match (\<open>match.group()\<close>, \<open>match.start()\<close>, \<open>match.end()\<close>), which includes the
  boundary characters matched around the postal code: in \<open>"a paris 75001 b"\<close> the result
  is \<open>(" 75001 ", 7, 14)\<close>, and the text between 7 and 14 is not the postal code, which
  stands between 8 and 13.
\<close>

theorem find_nearby_postal_code_returns_whole_match:
  "find_nearby_postal_code (ascii ''a paris 75001 b'') paris (2, 7) = Some (ascii '' 75001 '', 7, 14) \<and>
   py_slice (ascii ''a paris 75001 b'') 7 14 = ascii '' 75001 '' \<and>
   py_slice (ascii ''a paris 75001 b'') 7 14 \<noteq> postal_code paris \<and>
   py_slice (ascii ''a paris 75001 b'') 8 13 = postal_code paris"
  by code_simp

lemma nat_int_diff: "nat (int x - int y) = x - y"
  by linarith

lemma py_slice_in_range:
  "0 \<le> a \<Longrightarrow> a \<le> b \<Longrightarrow> b \<le> int (length xs)
     \<Longrightarrow> py_slice xs a b = substring xs (nat a) (nat b)"
  by (simp add: py_slice_def slice_index_def substring_def Let_def min_def nat_diff_distrib)

lemma search_window_valid:
  assumes "valid_span (length text) span"
  shows "window_in_bounds (length text) (search_window text span)"
    and "fst (search_window text span) < snd (search_window text span)"
  using assms by (auto simp: valid_span_def window_in_bounds_def search_window_def Let_def)

lemma search_window_nonneg: "0 \<le> fst (search_window text span)"
  by (simp add: search_window_def Let_def)

lemma length_search_text_valid:
  assumes "valid_span (length text) span"
  shows "int (length (search_text text span))
           = snd (search_window text span) - fst (search_window text span)"
proof -
  from search_window_valid [OF assms]
  have w: "0 \<le> fst (search_window text span)"
    "fst (search_window text span) \<le> snd (search_window text span)"
    "snd (search_window text span) \<le> int (length text)"
    by (simp_all add: window_in_bounds_def)
  show ?thesis
    unfolding search_text_def py_slice_in_range [OF w] substring_def using w by auto
qed

lemma find_nearby_Some:
  assumes "find_nearby_postal_code text city span = Some (g, a, b)"
  shows "\<exists>i e. match_at (postal_code city) (search_text text span) i = Some e \<and>
           a = fst (search_window text span) + int i \<and>
           b = fst (search_window text span) + int e"
proof -
  from assms obtain i e where
    s: "search_postal_code (postal_code city) (search_text text span) = Some (i, e)"
    and "a = fst (search_window text span) + int i" "b = fst (search_window text span) + int e"
    by (auto simp: find_nearby_postal_code_def search_text_def case_prod_beta Let_def
             split: option.splits)
  with search_postal_code_Some [OF s] show ?thesis by blast
qed

lemma find_nearby_nonneg:
  assumes "find_nearby_postal_code text city span = Some (g, a, b)"
  shows "0 \<le> a \<and> a \<le> b"
proof -
  from find_nearby_Some [OF assms] obtain i e where
    m: "match_at (postal_code city) (search_text text span) i = Some e"
    and ab: "a = fst (search_window text span) + int i" "b = fst (search_window text span) + int e"
    by blast
  from match_at_bounds [OF m] ab search_window_nonneg show ?thesis by simp
qed

lemma find_nearby_valid:
  assumes "find_nearby_postal_code text city span = Some (g, a, b)"
    and v: "valid_span (length text) span"
  shows "valid_span (length text) (a, b)"
proof -
  from find_nearby_Some [OF assms(1)] obtain i e where
    m: "match_at (postal_code city) (search_text text span) i = Some e"
    and ab: "a = fst (search_window text span) + int i" "b = fst (search_window text span) + int e"
    by blast
  have len: "int (length (search_text text span))
           = snd (search_window text span) - fst (search_window text span)"
    by (rule length_search_text_valid [OF v])
  with search_window_valid(2) [OF v] have ne: "search_text text span \<noteq> []" by auto
  from match_at_bounds [OF m] ne have "i < e" "e \<le> length (search_text text span)" by auto
  with len ab search_window_valid(1) [OF v] show ?thesis
    by (auto simp: valid_span_def window_in_bounds_def)
qed

lemma address_slice_spec:
  assumes "0 \<le> snd (snd nearby_code)"
  shows "(case address_window text span nearby_code of (lo, hi) \<Rightarrow> py_slice text lo hi)
           = assemble_spec text span (snd nearby_code)"
proof -
  let ?n = "int (length text)"
  let ?A = "min (fst span) (fst (snd nearby_code)) - 30"
  let ?B = "max (snd span) (snd (snd nearby_code)) + 30"
  have B: "0 \<le> ?B" using assms by simp
  have l: "slice_index ?n (max 0 ?A) = int (clip (length text) ?A)"
    by (simp add: slice_index_def clip_def)
  have h: "slice_index ?n (min ?n ?B) = int (clip (length text) ?B)"
    using B by (simp add: slice_index_def clip_def)
  have "py_slice text (max 0 ?A) (min ?n ?B)
          = substring text (clip (length text) ?A) (clip (length text) ?B)"
    unfolding py_slice_def Let_def l h substring_def nat_int_diff by simp
  then show ?thesis
    by (simp add: address_window_def assemble_spec_def Let_def)
qed

lemma address_window_valid:
  assumes "valid_span n span" "valid_span n (snd nearby_code)" "n = length text"
  shows "window_in_bounds n (address_window text span nearby_code)"
  using assms
  by (auto simp: valid_span_def window_in_bounds_def address_window_def Let_def)

lemma link_cities_eq:
  "link_cities text ms full addrs =
     (full @ concat (map (linked_pair text) ms),
      addrs @ map (\<lambda>(nearby_code, (nm, span)).
                     case address_window text span nearby_code of (lo, hi) \<Rightarrow> py_slice text lo hi)
                (concat (map (linked_pair text) ms)))"
proof (induction ms arbitrary: full addrs)
  case Nil
  then show ?case by simp
next
  case (Cons m ms)
  obtain city span where m: "m = (city, span)" by (cases m)
  show ?case
  proof (cases "find_nearby_postal_code text city span")
    case None
    with Cons.IH m show ?thesis by (simp add: linked_pair_def)
  next
    case (Some nearby_code)
    with Cons.IH m show ?thesis by (simp add: linked_pair_def case_prod_beta)
  qed
qed

lemma linked_pair_elem:
  assumes "(pm, (nm, span)) \<in> set (concat (map (linked_pair text) ms))"
  shows "\<exists>city. (city, span) \<in> set ms \<and> nm = name city \<and>
           find_nearby_postal_code text city span = Some pm"
  using assms by (auto simp: linked_pair_def split: option.splits)

lemma length_linked:
  "length (concat (map (linked_pair text) ms))
     = length (filter (\<lambda>(c, span). find_nearby_postal_code text c span \<noteq> None) ms)"
  by (induction ms) (auto simp: linked_pair_def split: option.splits)

lemma extract_location_active:
  assumes "get_locale ocr_result = Some (ascii ''fr'')"
  shows "extract_location db cities_processor ocr_result =
     (let text = prepare_text db (text_annotations_str_lower ocr_result);
          found = cities_processor text
      in \<lparr>cities = map (\<lambda>(c, span). (name c, span)) found,
          full_cities = concat (map (linked_pair text) found),
          addresses = map (\<lambda>(nearby_code, (nm, span)).
                     case address_window text span nearby_code of (lo, hi) \<Rightarrow> py_slice text lo hi)
                (concat (map (linked_pair text) found))\<rparr>)"
  using assms
  by (simp add: extract_location_def find_city_names_def link_cities_eq Let_def)

text \<open>
  Claim C4. When the locale of the first text annotation is not \<open>"fr"\<close> (there may be no
  annotation at all, the locale is then \<open>None\<close>), \<open>extract_location\<close> returns three empty
  lists, whatever the text, the Unicode data and the keyword processor are.
\<close>

theorem extract_location_other_locale:
  assumes "get_locale ocr_result \<noteq> Some (ascii ''fr'')"
  shows "extract_location db cities_processor ocr_result =
           \<lparr>cities = [], full_cities = [], addresses = []\<rparr>"
  using assms by (simp add: extract_location_def Let_def)

theorem extract_location_other_locale_witness:
  "get_locale \<lparr>text_annotations = [], text_annotations_str_lower = []\<rparr> = None \<and>
   extract_location latin_ucd sample_processor
       \<lparr>text_annotations = [], text_annotations_str_lower = []\<rparr>
     = \<lparr>cities = [], full_cities = [], addresses = []\<rparr> \<and>
   get_locale (sample_ocr\<lparr>text_annotations := [\<lparr>annotation_locale = Some (ascii ''en'')\<rparr>]\<rparr>)
     = Some (ascii ''en'') \<and>
   extract_location latin_ucd sample_processor
       (sample_ocr\<lparr>text_annotations := [\<lparr>annotation_locale = Some (ascii ''en'')\<rparr>]\<rparr>)
     = \<lparr>cities = [], full_cities = [], addresses = []\<rparr>"
proof -
  let ?none = "\<lparr>text_annotations = [], text_annotations_str_lower = []\<rparr>"
  let ?en = "sample_ocr\<lparr>text_annotations := [\<lparr>annotation_locale = Some (ascii ''en'')\<rparr>]\<rparr>"
  have a: "get_locale ?none = None" by (simp add: get_locale_def)
  then have a': "get_locale ?none \<noteq> Some (ascii ''fr'')" by simp
  have b: "get_locale ?en = Some (ascii ''en'')" by (simp add: get_locale_def)
  then have b': "get_locale ?en \<noteq> Some (ascii ''fr'')" by (simp add: ascii_def)
  from extract_location_other_locale [OF a', of latin_ucd sample_processor]
    extract_location_other_locale [OF b', of latin_ucd sample_processor] a b
  show ?thesis by simp
qed

text \<open>
  Claim C5. With the locale \<open>"fr"\<close>: \<open>full_cities\<close> holds one entry for every city match
  near which a postal code is found, in the order of the matches, and none for the other
  matches; \<open>addresses\<close> holds one snippet for every entry of \<open>full_cities\<close>, in the same
  order, and the snippet is the substring of the text from
  \<open>min(city start, postal start) - 30\<close> to \<open>max(city end, postal end) + 30\<close>, both bounds
  clipped to \<open>0..len(text)\<close>.
\<close>

theorem extract_location_addresses:
  fixes cities_processor :: "ustring \<Rightarrow> ((ustring, 'c) City \<times> int \<times> int) list"
  assumes "get_locale ocr_result = Some (ascii ''fr'')"
  shows "(let text = prepare_text db (text_annotations_str_lower ocr_result);
              r = extract_location db cities_processor ocr_result
          in full_cities r = concat (map (linked_pair text) (cities_processor text)) \<and>
             addresses r = map (\<lambda>(nearby_code, (nm, span)).
                                  assemble_spec text span (snd nearby_code)) (full_cities r) \<and>
             length (addresses r)
               = length (filter (\<lambda>(c, span). find_nearby_postal_code text c span \<noteq> None)
                           (cities_processor text)))"
proof -
  let ?text = "prepare_text db (text_annotations_str_lower ocr_result)"
  let ?linked = "concat (map (linked_pair ?text) (cities_processor ?text))"
  let ?code = "\<lambda>(nearby_code, (nm :: ustring, span)).
                 case address_window ?text span nearby_code of (lo, hi) \<Rightarrow> py_slice ?text lo hi"
  let ?spec = "\<lambda>(nearby_code, (nm :: ustring, span)). assemble_spec ?text span (snd nearby_code)"
  have "?code x = ?spec x" if x: "x \<in> set ?linked" for x
  proof -
    obtain nearby_code nm span where eq: "x = (nearby_code, (nm, span))"
      by (metis surj_pair)
    from linked_pair_elem [OF x [unfolded eq]] obtain city :: "(ustring, 'c) City" where
      "find_nearby_postal_code ?text city span = Some nearby_code" by blast
    then have "find_nearby_postal_code ?text city span
                 = Some (fst nearby_code, fst (snd nearby_code), snd (snd nearby_code))" by simp
    from find_nearby_nonneg [OF this] have "0 \<le> snd (snd nearby_code)" by simp
    from address_slice_spec [OF this] show ?thesis by (simp add: eq)
  qed
  then have "map ?code ?linked = map ?spec ?linked"
    by (intro map_cong refl)
  then show ?thesis
    by (simp add: extract_location_active [OF assms] Let_def length_linked)
qed

lemma sample_text:
  "prepare_text latin_ucd (text_annotations_str_lower sample_ocr) = ascii ''lyon ou paris 75001 b''"
  by code_simp

lemma sample_locale: "get_locale sample_ocr = Some (ascii ''fr'')"
  by (simp add: get_locale_def sample_ocr_def)

lemma sample_linked:
  "concat (map (linked_pair (ascii ''lyon ou paris 75001 b'')) (sample_processor (ascii ''lyon ou paris 75001 b'')))
     = [((ascii '' 75001 '', 13, 20), (ascii ''paris'', 8, 13))]"
  by code_simp

theorem extract_location_addresses_witness:
  "get_locale sample_ocr = Some (ascii ''fr'') \<and>
   full_cities (extract_location latin_ucd sample_processor sample_ocr)
     = [((ascii '' 75001 '', 13, 20), (ascii ''paris'', 8, 13))] \<and>
   addresses (extract_location latin_ucd sample_processor sample_ocr)
     = [ascii ''lyon ou paris 75001 b'']"
proof -
  have "assemble_spec (ascii ''lyon ou paris 75001 b'') (8, 13) (13, 20) = ascii ''lyon ou paris 75001 b''"
    by code_simp
  with extract_location_addresses [OF sample_locale, of latin_ucd sample_processor]
  show ?thesis
    by (simp add: Let_def sample_text sample_linked sample_locale)
qed

text \<open>
  Claim C6. When the keyword processor returns spans with
  \<open>0 \<le> start < end \<le> len(text)\<close> on the normalised text, for cities whose postal code is
  made of digits, then every city span of \<open>cities\<close> and \<open>full_cities\<close> and every
  postal-code span of \<open>full_cities\<close> satisfies \<open>0 \<le> start < end \<le> len(text)\<close>, and the
  bounds of the two slices (the search window of every match, the address window of every
  linked pair) lie in \<open>0..len(text)\<close>, lower bound first.
\<close>

theorem extract_location_spans_in_bounds:
  fixes cities_processor :: "ustring \<Rightarrow> ((ustring, 'c) City \<times> int \<times> int) list"
  assumes "\<forall>(c, span) \<in> set (cities_processor (prepare_text db (text_annotations_str_lower ocr_result))).
             valid_span (length (prepare_text db (text_annotations_str_lower ocr_result))) span \<and>
             list_all is_digit (postal_code c)"
  shows "(let text = prepare_text db (text_annotations_str_lower ocr_result);
              r = extract_location db cities_processor ocr_result
          in (\<forall>(nm, span) \<in> set (cities r). valid_span (length text) span) \<and>
             (\<forall>((g, postal_span), (nm, span)) \<in> set (full_cities r).
                 valid_span (length text) postal_span \<and> valid_span (length text) span \<and>
                 window_in_bounds (length text) (address_window text span (g, postal_span))) \<and>
             (\<forall>(c, span) \<in> set (cities_processor text).
                 window_in_bounds (length text) (search_window text span)))"
proof -
  let ?text = "prepare_text db (text_annotations_str_lower ocr_result)"
  let ?n = "length ?text"
  let ?found = "cities_processor ?text"
  let ?r = "extract_location db cities_processor ocr_result"
  from assms have v: "valid_span ?n span" if "(c, span) \<in> set ?found" for c span
    using that by blast
  have w: "\<forall>(c, span) \<in> set ?found. window_in_bounds ?n (search_window ?text span)"
    using v search_window_valid(1) by blast
  have l: "valid_span ?n postal_span \<and> valid_span ?n span \<and>
           window_in_bounds ?n (address_window ?text span (g, postal_span))"
    if "((g, postal_span), (nm, span)) \<in> set (concat (map (linked_pair ?text) ?found))"
    for g postal_span nm span
  proof -
    from linked_pair_elem [OF that] obtain city :: "(ustring, 'c) City" where
      m: "(city, span) \<in> set ?found" and
      f: "find_nearby_postal_code ?text city span = Some (g, postal_span)" by blast
    from f have "find_nearby_postal_code ?text city span = Some (g, fst postal_span, snd postal_span)"
      by simp
    from find_nearby_valid [OF this v [OF m]] have p: "valid_span ?n postal_span" by simp
    from address_window_valid [of ?n span "(g, postal_span)" ?text] p v [OF m]
    show ?thesis by simp
  qed
  show ?thesis
  proof (cases "get_locale ocr_result = Some (ascii ''fr'')")
    case True
    have c: "cities ?r = map (\<lambda>(c, span). (name c, span)) ?found"
      and fc: "full_cities ?r = concat (map (linked_pair ?text) ?found)"
      by (simp_all add: extract_location_active [OF True] Let_def)
    have "\<forall>(nm, span) \<in> set (cities ?r). valid_span ?n span"
      unfolding c using v by auto
    moreover have "\<forall>((g, postal_span), (nm, span)) \<in> set (full_cities ?r).
                 valid_span ?n postal_span \<and> valid_span ?n span \<and>
                 window_in_bounds ?n (address_window ?text span (g, postal_span))"
      unfolding fc using l by blast
    ultimately show ?thesis using w by (simp add: Let_def)
  next
    case False
    then have "?r = \<lparr>cities = [], full_cities = [], addresses = []\<rparr>"
      by (simp add: extract_location_def Let_def)
    then show ?thesis using w by (simp add: Let_def)
  qed
qed

lemma sample_extraction:
  "cities (extract_location latin_ucd sample_processor sample_ocr)
     = [(ascii ''lyon'', 0, 4), (ascii ''paris'', 8, 13)] \<and>
   full_cities (extract_location latin_ucd sample_processor sample_ocr)
     = [((ascii '' 75001 '', 13, 20), (ascii ''paris'', 8, 13))]"
  by (simp add: extract_location_active [OF sample_locale] Let_def sample_text sample_linked)
     (simp add: sample_processor_def lyon_def paris_def)

theorem extract_location_spans_in_bounds_witness:
  "valid_span 21 (0, 4) \<and> valid_span 21 (8, 13) \<and>
   list_all is_digit (postal_code lyon) \<and> list_all is_digit (postal_code paris) \<and>
   length (prepare_text latin_ucd (text_annotations_str_lower sample_ocr)) = 21 \<and>
   full_cities (extract_location latin_ucd sample_processor sample_ocr)
     = [((ascii '' 75001 '', 13, 20), (ascii ''paris'', 8, 13))] \<and>
   valid_span (length (prepare_text latin_ucd (text_annotations_str_lower sample_ocr))) (13, 20) \<and>
   window_in_bounds (length (prepare_text latin_ucd (text_annotations_str_lower sample_ocr)))
     (search_window (prepare_text latin_ucd (text_annotations_str_lower sample_ocr)) (8, 13))"
proof -
  let ?text = "prepare_text latin_ucd (text_annotations_str_lower sample_ocr)"
  have n: "length ?text = 21" by (simp add: sample_text ascii_def)
  have v: "valid_span 21 (0, 4)" "valid_span 21 (8, 13)" by (simp_all add: valid_span_def)
  have d: "list_all is_digit (postal_code lyon)" "list_all is_digit (postal_code paris)"
    by (simp_all add: lyon_def paris_def ascii_def is_digit_def)
  have h: "\<forall>(c, span) \<in> set (sample_processor ?text).
             valid_span (length ?text) span \<and> list_all is_digit (postal_code c)"
    using v d by (simp add: n sample_processor_def)
  have "((ascii '' 75001 '', 13, 20), (ascii ''paris'', 8, 13))
          \<in> set (full_cities (extract_location latin_ucd sample_processor sample_ocr))"
    by (simp add: sample_extraction)
  moreover have "(paris, 8, 13) \<in> set (sample_processor ?text)"
    by (simp add: sample_processor_def)
  ultimately have "valid_span (length ?text) (13, 20) \<and>
      window_in_bounds (length ?text) (search_window ?text (8, 13))"
    using extract_location_spans_in_bounds
            [where cities_processor = sample_processor and db = latin_ucd
               and ocr_result = sample_ocr, OF h]
    unfolding Let_def by fast
  with n v d sample_extraction show ?thesis by simp
qed

section \<open>Properties of the gazetteer loader\<close>

lemma build_cities_Inr:
  "build_cities lw items acc = Inr cs \<longleftrightarrow>
     (\<exists>ds. cs = acc @ ds \<and> map (city_of_item lw) items = map Inr ds)"
proof (induction items arbitrary: acc)
  case Nil
  then show ?case by auto
next
  case (Cons item items)
  show ?case
  proof (cases "city_of_item lw item")
    case (Inl e)
    then show ?thesis by (auto simp: Cons_eq_map_conv)
  next
    case (Inr c)
    have "(\<exists>ds. cs = (acc @ [c]) @ ds \<and> map (city_of_item lw) items = map Inr ds)
            \<longleftrightarrow> (\<exists>ds. cs = acc @ ds \<and> Inr c # map (city_of_item lw) items = map Inr ds)"
      by (auto simp: Cons_eq_map_conv)
    with Inr Cons.IH [of "acc @ [c]"] show ?thesis by simp
  qed
qed

lemma build_cities_isl:
  "isl (build_cities lw items acc) \<longleftrightarrow> list_ex (\<lambda>item. isl (city_of_item lw item)) items"
  by (induction items arbitrary: acc) (auto split: sum.splits)

lemma required_absent_fails:
  assumes "required_absent item"
  shows "isl (city_of_item lw item)"
proof (cases "getitem item (ascii ''fields'')")
  case (Inl e)
  then show ?thesis by (simp add: city_of_item_def)
next
  case (Inr city_data)
  then obtain kvs where item: "item = PDict kvs" and f: "map_of kvs (ascii ''fields'') = Some city_data"
    by (auto simp: getitem_def split: pyval.splits option.splits)
  show ?thesis
  proof (cases "get_method city_data (ascii ''coordonnees_gps'')")
    case (Inl e)
    with Inr show ?thesis by (simp add: city_of_item_def)
  next
    case g: (Inr coords)
    then obtain fs where cd: "city_data = PDict fs"
      by (auto simp: get_method_def split: pyval.splits)
    from assms item f cd
    have "map_of fs (ascii ''nom_de_la_commune'') = None \<or> map_of fs (ascii ''code_postal'') = None"
      by (auto simp: required_absent_def field_present_def)
    then have "isl (getitem city_data (ascii ''nom_de_la_commune'')) \<or>
               isl (getitem city_data (ascii ''code_postal''))"
      by (auto simp: cd getitem_def)
    then show ?thesis
      by (auto simp: city_of_item_def Inr g split: sum.splits)
  qed
qed

lemma shaped_record_loads:
  assumes "record_shaped item" "\<not> required_absent item"
  shows "\<exists>c. city_of_item lw item = Inr c \<and> city_hashable c"
proof -
  from assms obtain kvs fs where item: "item = PDict kvs"
    and f: "map_of kvs (ascii ''fields'') = Some (PDict fs)"
    by (auto simp: required_absent_def field_present_def split: pyval.splits option.splits)
  from assms(2) item f obtain nom code where
    n: "map_of fs (ascii ''nom_de_la_commune'') = Some nom" and
    c: "map_of fs (ascii ''code_postal'') = Some code"
    by (auto simp: required_absent_def field_present_def)
  from assms(1) item f have fs: "fields_shaped fs" by (simp add: record_shaped_def)
  with n c obtain ns cs where nom: "nom = PStr ns" and code: "code = PStr cs"
    by (auto simp: fields_shaped_def is_str_def split: pyval.splits)
  have g: "getitem item (ascii ''fields'') = Inr (PDict fs)"
    "getitem (PDict fs) (ascii ''nom_de_la_commune'') = Inr (PStr ns)"
    "getitem (PDict fs) (ascii ''code_postal'') = Inr (PStr cs)"
    using item f n c nom code by (simp_all add: getitem_def)
  have l: "lower_method lw (PStr ns) = Inr (lw ns)" by (simp add: lower_method_def)
  from fs have "\<exists>co. (case get_method (PDict fs) (ascii ''coordonnees_gps'') of
                        Inl e \<Rightarrow> Inl e
                      | Inr coords \<Rightarrow> if coords \<noteq> PNone then map_sum id Some (py_iter coords)
                                      else Inr None) = Inr co \<and>
                     (case co of None \<Rightarrow> True | Some xs \<Rightarrow> list_all hashable xs)"
    by (auto simp: fields_shaped_def coords_shaped_def get_method_def py_iter_def
          list_all_iff is_num_def hashable_def split: option.splits pyval.splits)
  then obtain co where
    co: "(case get_method (PDict fs) (ascii ''coordonnees_gps'') of
            Inl e \<Rightarrow> Inl e
          | Inr coords \<Rightarrow> if coords \<noteq> PNone then map_sum id Some (py_iter coords)
                          else Inr None) = Inr co"
    and h: "case co of None \<Rightarrow> True | Some xs \<Rightarrow> list_all hashable xs" by blast
  have "city_of_item lw item = Inr \<lparr>name = lw ns, postal_code = PStr cs, coordinates = co\<rparr>"
    using co by (auto simp: city_of_item_def g l split: sum.splits)
  moreover have "city_hashable \<lparr>name = lw ns, postal_code = PStr cs, coordinates = co\<rparr>"
    using h by (simp add: city_hashable_def hashable_def)
  ultimately show ?thesis by blast
qed

lemma load_cities_fr_Inr:
  assumes "load_cities_fr lib source = Inr cs"
  shows "\<exists>json_data items built.
           read_json lib source = Inr json_data \<and> py_iter json_data = Inr items \<and>
           map (city_of_item (str_lower lib)) items = map Inr built \<and>
           list_all city_hashable built \<and> cs = remdups built"
proof -
  from assms obtain json_data items built where
    r: "read_json lib source = Inr json_data" and i: "py_iter json_data = Inr items" and
    b: "build_cities (str_lower lib) items [] = Inr built" and
    h: "list_all city_hashable built" and c: "cs = remdups built"
    by (auto simp: load_cities_fr_def split: sum.splits if_splits)
  from b have "map (city_of_item (str_lower lib)) items = map Inr built"
    by (simp add: build_cities_Inr)
  with r i h c show ?thesis by blast
qed

text \<open>
  Claim C8. A list returned by \<open>load_cities_fr\<close> holds no city twice (two cities are
  equal when their three fields are), it holds exactly the cities its records project
  to, and a source of two records that project to the same city, byte-identical or
  differing outside the three fields, gives a list of length 1.
\<close>

theorem load_cities_fr_deduplicates:
  assumes "load_cities_fr lib source = Inr cs"
  shows "distinct cs \<and>
         (\<forall>items. read_json lib source = Inr (PList items)
            \<longrightarrow> Inr ` set cs = city_of_item (str_lower lib) ` set items) \<and>
         (\<forall>r r'. read_json lib source = Inr (PList [r, r']) \<and>
                  city_of_item (str_lower lib) r = city_of_item (str_lower lib) r'
            \<longrightarrow> length cs = 1)"
proof -
  from load_cities_fr_Inr [OF assms] obtain json_data items built where
    r: "read_json lib source = Inr json_data" and i: "py_iter json_data = Inr items" and
    m: "map (city_of_item (str_lower lib)) items = map Inr built" and
    c: "cs = remdups built"
    by blast
  have d: "distinct cs" by (simp add: c)
  have s: "Inr ` set cs = city_of_item (str_lower lib) ` set items'"
    if "read_json lib source = Inr (PList items')" for items'
  proof -
    from that r i have "items' = items" by (simp add: py_iter_def)
    moreover have "set (map (city_of_item (str_lower lib)) items) = set (map Inr built)"
      by (simp only: m)
    ultimately show ?thesis by (simp add: c)
  qed
  have t: "length cs = 1"
    if "read_json lib source = Inr (PList [r, r'])"
       "city_of_item (str_lower lib) r = city_of_item (str_lower lib) r'" for r r'
  proof -
    from that(1) r i have "items = [r, r']" by (simp add: py_iter_def)
    with m obtain a b where "built = [a, b]" "city_of_item (str_lower lib) r = Inr a"
      "city_of_item (str_lower lib) r' = Inr b"
      by (auto simp: Cons_eq_map_conv)
    with that(2) have "built = [a, a]" by simp
    then show ?thesis by (simp add: c)
  qed
  from d s t show ?thesis by blast
qed

lemma duplicate_loads:
  "load_cities_fr direct_library (Some duplicate_document)
     = Inr [\<lparr>name = ascii ''paris'', postal_code = PStr (ascii ''75001''), coordinates = None\<rparr>]"
  by code_simp

lemma projected_loads:
  "load_cities_fr direct_library (Some projected_document)
     = Inr [\<lparr>name = ascii ''paris'', postal_code = PStr (ascii ''75001''), coordinates = None\<rparr>]"
  by code_simp

lemma projected_same_city:
  "city_of_item ascii_lower
       (commune ''Paris'' ''75001'' [(ascii ''code_commune_insee'', PStr (ascii ''75101''))])
     = city_of_item ascii_lower
       (commune ''PARIS'' ''75001'' [(ascii ''code_commune_insee'', PStr (ascii ''75056''))])"
  by code_simp

theorem load_cities_fr_deduplicates_witness:
  "load_cities_fr direct_library (Some duplicate_document)
     = Inr [\<lparr>name = ascii ''paris'', postal_code = PStr (ascii ''75001''), coordinates = None\<rparr>] \<and>
   length [\<lparr>name = ascii ''paris'', postal_code = PStr (ascii ''75001'') :: int pyval,
            coordinates = None :: int pyval list option\<rparr>] = 1 \<and>
   load_cities_fr direct_library (Some projected_document)
     = Inr [\<lparr>name = ascii ''paris'', postal_code = PStr (ascii ''75001''), coordinates = None\<rparr>] \<and>
   distinct [\<lparr>name = ascii ''paris'', postal_code = PStr (ascii ''75001'') :: int pyval,
              coordinates = None :: int pyval list option\<rparr>]"
proof -
  have r: "read_json direct_library (Some duplicate_document)
             = Inr (PList [commune ''Paris'' ''75001'' [], commune ''Paris'' ''75001'' []])"
    by (simp add: read_json_def direct_library_def duplicate_document_def)
  from load_cities_fr_deduplicates [OF duplicate_loads] r
  have "length [\<lparr>name = ascii ''paris'', postal_code = PStr (ascii ''75001'') :: int pyval,
            coordinates = None :: int pyval list option\<rparr>] = 1" by blast
  moreover from load_cities_fr_deduplicates [OF projected_loads]
  have "distinct [\<lparr>name = ascii ''paris'', postal_code = PStr (ascii ''75001'') :: int pyval,
              coordinates = None :: int pyval list option\<rparr>]" by blast
  ultimately show ?thesis using duplicate_loads projected_loads by blast
qed

text \<open>
  Claim C9, as stated, fails: a record whose commune name is a number is valid JSON
  with both required fields present, and the load fails on it (\<open>.lower()\<close> on a number).
\<close>

theorem load_cities_fr_numeric_name_counterexample:
  "load_cities_fr direct_library (Some numeric_name_document) = Inl AttributeError \<and>
   \<not> format_error_expected direct_library (Some numeric_name_document) \<and>
   \<not> (isl (load_cities_fr direct_library (Some numeric_name_document))
        \<longleftrightarrow> format_error_expected direct_library (Some numeric_name_document))"
  by code_simp

text \<open>
  Claim C9, amended. The load fails whenever the stream is not validly compressed, is
  not valid JSON, or the commune name or the postal code is absent from some record;
  for a source whose document is an array of records with fields of the expected types
  it fails in these cases only, so an absent coordinate field is not an error. A failed
  load is an error value and carries no list of cities.
\<close>

theorem load_cities_fr_failure:
  "(format_error_expected lib source \<longrightarrow> isl (load_cities_fr lib source)) \<and>
   ((\<forall>json_data. read_json lib source = Inr json_data \<longrightarrow> well_shaped json_data)
      \<longrightarrow> (isl (load_cities_fr lib source) \<longleftrightarrow> format_error_expected lib source))"
proof -
  have a: "isl (load_cities_fr lib source)" if e: "format_error_expected lib source"
  proof (cases "read_json lib source")
    case (Inl err)
    then show ?thesis by (simp add: load_cities_fr_def)
  next
    case (Inr json_data)
    with e have ex: "list_ex required_absent (records_of json_data)"
      by (simp add: format_error_expected_def)
    then obtain items where j: "json_data = PList items"
      by (cases json_data) (simp_all add: records_of_def)
    with ex have "list_ex (\<lambda>item. isl (city_of_item (str_lower lib) item)) items"
      by (auto simp: records_of_def list_ex_iff intro: required_absent_fails)
    then have "isl (build_cities (str_lower lib) items [])" by (simp add: build_cities_isl)
    then show ?thesis
      by (auto simp: load_cities_fr_def Inr j py_iter_def split: sum.splits)
  qed
  have b: "format_error_expected lib source"
    if w: "\<forall>json_data. read_json lib source = Inr json_data \<longrightarrow> well_shaped json_data"
      and f: "isl (load_cities_fr lib source)"
  proof (rule ccontr)
    assume n: "\<not> format_error_expected lib source"
    then obtain json_data where r: "read_json lib source = Inr json_data"
      and na: "\<not> list_ex required_absent (records_of json_data)"
      by (auto simp: format_error_expected_def split: sum.splits)
    from w r have "well_shaped json_data" by blast
    then obtain items where j: "json_data = PList items" and sh: "list_all record_shaped items"
      by (cases json_data) (simp_all add: well_shaped_def)
    have ok: "\<exists>c. city_of_item (str_lower lib) item = Inr c \<and> city_hashable c"
      if "item \<in> set items" for item
      using that sh na j shaped_record_loads [of item "str_lower lib"]
      by (auto simp: list_all_iff list_ex_iff records_of_def)
    then have "\<not> list_ex (\<lambda>item. isl (city_of_item (str_lower lib) item)) items"
      unfolding list_ex_iff by (metis sum.disc(2))
    then have "\<not> isl (build_cities (str_lower lib) items [])" by (simp add: build_cities_isl)
    then obtain built where b: "build_cities (str_lower lib) items [] = Inr built"
      by (cases "build_cities (str_lower lib) items []") auto
    then have m: "map (city_of_item (str_lower lib)) items = map Inr built"
      by (simp add: build_cities_Inr)
    have "city_hashable c" if "c \<in> set built" for c
    proof -
      from that have "Inr c \<in> set (map Inr built)" by simp
      with m have "Inr c \<in> set (map (city_of_item (str_lower lib)) items)" by simp
      then obtain item where "item \<in> set items" "city_of_item (str_lower lib) item = Inr c"
        by auto
      with ok show ?thesis by fastforce
    qed
    then have "list_all city_hashable built" by (simp add: list_all_iff)
    with r j b have "load_cities_fr lib source = Inr (remdups built)"
      by (simp add: load_cities_fr_def py_iter_def)
    with f show False by simp
  qed
  from a b show ?thesis by blast
qed

theorem load_cities_fr_failure_witness:
  "format_error_expected direct_library (Some missing_code_document) \<and>
   isl (load_cities_fr direct_library (Some missing_code_document)) \<and>
   well_shaped no_coordinates_document \<and>
   \<not> format_error_expected direct_library (Some no_coordinates_document) \<and>
   \<not> isl (load_cities_fr direct_library (Some no_coordinates_document))"
proof -
  have e: "format_error_expected direct_library (Some missing_code_document)"
    by code_simp
  have w: "well_shaped no_coordinates_document" by code_simp
  have r: "read_json direct_library (Some no_coordinates_document) = Inr no_coordinates_document"
    by (simp add: read_json_def direct_library_def)
  have n: "\<not> format_error_expected direct_library (Some no_coordinates_document)"
    by code_simp
  from w r have "\<forall>json_data. read_json direct_library (Some no_coordinates_document) = Inr json_data
                   \<longrightarrow> well_shaped json_data" by simp
  with load_cities_fr_failure [of direct_library "Some no_coordinates_document"] n
  have "\<not> isl (load_cities_fr direct_library (Some no_coordinates_document))" by blast
  moreover from load_cities_fr_failure [of direct_library "Some missing_code_document"] e
  have "isl (load_cities_fr direct_library (Some missing_code_document))" by blast
  ultimately show ?thesis using e w n by blast
qed

end
